theory Spec2Isabelle
  imports Main "HOL-Library.Word"
begin

unbundle bit_operations_syntax

section \<open>Data model of \<^verbatim>\<open>main.go\<close>\<close>

text \<open>
  The editor state is the Go struct \<^verbatim>\<open>Editor\<close>: the terminal size and the cursor
  position, four fields of Go type \<^verbatim>\<open>int\<close> (64 bits). They are modelled as
  \<open>int\<close>. The program makes one editor, from the size that \<^verbatim>\<open>term.GetSize\<close>
  reports for the terminal, with the cursor at the origin; for a cursor inside
  such a viewport the values the program computes (\<open>cx + 1\<close>, \<open>cy + 1\<close>,
  \<open>width - 1\<close>, \<open>height - 1\<close>, \<open>height / 3\<close>, \<open>width - 37\<close>, the loop
  counters up to \<open>height + 1\<close>) are inside the 64-bit range and nothing wraps
  around.
\<close>

record Editor =
  width :: int
  height :: int
  cx :: int
  cy :: int

text \<open>
  \<^verbatim>\<open>type EdKey int\<close>: a key is an integer, either the value of an input byte or
  one of the aliases that start at 1000 (\<^verbatim>\<open>iota + 1000\<close>).
\<close>

type_synonym EdKey = int

definition ARW_LEFT :: EdKey where "ARW_LEFT = 1000"
definition ARW_UP :: EdKey where "ARW_UP = 1001"
definition ARW_RIGHT :: EdKey where "ARW_RIGHT = 1002"
definition ARW_DOWN :: EdKey where "ARW_DOWN = 1003"
definition PG_UP :: EdKey where "PG_UP = 1004"
definition PG_DOWN :: EdKey where "PG_DOWN = 1005"

text \<open>
  A Go \<^verbatim>\<open>byte\<close> is an 8-bit word; a byte literal such as \<^verbatim>\<open>'['\<close> is the code
  of the character. A run-time panic of the Go program is a value of the model.
\<close>

type_synonym byte = "8 word"

definition byte_of :: "char \<Rightarrow> byte" where
  "byte_of c = of_char c"

datatype panic = IndexOutOfRange | SliceBoundsOutOfRange

text \<open>\<^verbatim>\<open>b[i]\<close> on a slice: the element, or the index panic of Go.\<close>

definition index :: "byte list \<Rightarrow> nat \<Rightarrow> panic + byte" where
  "index b i = (if i < length b then Inr (b ! i) else Inl IndexOutOfRange)"

section \<open>The key decoder\<close>

text \<open>
  \<^verbatim>\<open>os.Stdin.Read(b)\<close> copies the bytes that the terminal delivers to this call,
  at most \<^verbatim>\<open>len(b)\<close> of them, over the front of the buffer and leaves the rest
  of the buffer as it was. \<open>inp\<close> is what the call delivers.
\<close>

definition stdin_Read :: "byte list \<Rightarrow> byte list \<Rightarrow> byte list" where
  "stdin_Read inp b = take (length b) inp @ drop (length inp) b"

text \<open>
  \<^verbatim>\<open>readKey\<close>, lines 95 to 133. The result is the key together with the buffer
  as the read left it (the slice is shared with the caller). The inner
  \<^verbatim>\<open>if\<close> on a digit either returns a page key or falls through to the
  \<^verbatim>\<open>switch\<close> on the arrow letters, and from there to \<^verbatim>\<open>return EdKey(b[0])\<close>;
  \<^verbatim>\<open>b[3]\<close> is read only after a digit, as in Go.
\<close>

definition readKey :: "byte list \<Rightarrow> byte list \<Rightarrow> panic + (EdKey \<times> byte list)" where
  "readKey inp b0 =
     (let b = stdin_Read inp b0 in
      case index b 0 of Inl e \<Rightarrow> Inl e | Inr c0 \<Rightarrow>
      if c0 = 0x1b then
        (case index b 1 of Inl e \<Rightarrow> Inl e | Inr c1 \<Rightarrow>
         if c1 \<noteq> byte_of CHR ''['' then Inr (0x1b, b)
         else
           (case index b 2 of Inl e \<Rightarrow> Inl e | Inr c2 \<Rightarrow>
            (case
               (if byte_of CHR ''0'' \<le> c2 \<and> c2 \<le> byte_of CHR ''9'' then
                  (case index b 3 of Inl e \<Rightarrow> Inl e | Inr c3 \<Rightarrow>
                   if c3 = byte_of CHR ''~'' then
                     (if c2 = byte_of CHR ''5'' then Inr (Some PG_UP)
                      else if c2 = byte_of CHR ''6'' then Inr (Some PG_DOWN)
                      else Inr None)
                   else Inr None)
                else Inr None)
             of Inl e \<Rightarrow> Inl e
              | Inr (Some page) \<Rightarrow> Inr (page, b)
              | Inr None \<Rightarrow>
                 if c2 = byte_of CHR ''A'' then Inr (ARW_UP, b)
                 else if c2 = byte_of CHR ''B'' then Inr (ARW_DOWN, b)
                 else if c2 = byte_of CHR ''C'' then Inr (ARW_RIGHT, b)
                 else if c2 = byte_of CHR ''D'' then Inr (ARW_LEFT, b)
                 else Inr (uint c0, b))))
      else Inr (uint c0, b))"

section \<open>Cursor movement\<close>

text \<open>\<^verbatim>\<open>moveCursor\<close>, lines 187 to 210: a key that is no arrow changes nothing.\<close>

definition moveCursor :: "Editor \<Rightarrow> EdKey \<Rightarrow> Editor" where
  "moveCursor ed ch =
     (if ch = ARW_LEFT then (if cx ed = 0 then ed else ed\<lparr>cx := cx ed - 1\<rparr>)
      else if ch = ARW_RIGHT then (if cx ed = width ed - 1 then ed else ed\<lparr>cx := cx ed + 1\<rparr>)
      else if ch = ARW_UP then (if cy ed = 0 then ed else ed\<lparr>cy := cy ed - 1\<rparr>)
      else if ch = ARW_DOWN then (if cy ed = height ed - 1 then ed else ed\<lparr>cy := cy ed + 1\<rparr>)
      else ed)"

text \<open>
  The two page loops of \<^verbatim>\<open>processKeyPress\<close>, lines 73 to 75 and 78 to 80:
  \<^verbatim>\<open>for i := 0; i <= ed.height; i++ { ed.moveCursor(k) }\<close>, started at \<open>i = 0\<close>.
\<close>

function pageLoop :: "EdKey \<Rightarrow> int \<Rightarrow> Editor \<Rightarrow> Editor" where
  "pageLoop k i ed = (if i \<le> height ed then pageLoop k (i + 1) (moveCursor ed k) else ed)"
  by pat_completeness auto
termination
  by (relation "measure (\<lambda>(k, i, ed). nat (height ed + 1 - i))") (auto simp: moveCursor_def)

declare pageLoop.simps [simp del]

section \<open>Key processing\<close>

text \<open>
  What one call of \<^verbatim>\<open>processKeyPress\<close> leaves behind: the returned flag, the
  editor, the shared input buffer and the text it printed.
\<close>

record KeyResult =
  run :: bool
  editor :: Editor
  buffer :: "byte list"
  printed :: string

definition ESC :: char where "ESC = CHR 0x1B"
definition CR :: char where "CR = CHR 0x0D"
definition LF :: char where "LF = CHR 0x0A"

definition clear_screen :: string where
  "clear_screen = ESC # ''[H'' @ ESC # ''[2J''"

text \<open>
  \<^verbatim>\<open>processKeyPress\<close>, lines 55 to 92. The cases of the \<^verbatim>\<open>switch\<close> are tried
  in the order of the source; \<^verbatim>\<open>b[1] = 0\<close> panics on a buffer shorter than two
  bytes. The quit key is \<^verbatim>\<open>0x1f & 'q'\<close>.
\<close>

definition processKeyPress :: "Editor \<Rightarrow> byte list \<Rightarrow> byte list \<Rightarrow> panic + KeyResult" where
  "processKeyPress ed inp b0 =
     (case readKey inp b0 of Inl e \<Rightarrow> Inl e | Inr (ch, b) \<Rightarrow>
      if \<not> 1 < length b then Inl IndexOutOfRange
      else
        let b' = b[1 := 0] in
        if ch = 0x1f AND of_char CHR ''q'' then
          Inr \<lparr>run = False, editor = ed, buffer = b', printed = clear_screen\<rparr>
        else if ch = ARW_UP \<or> ch = ARW_DOWN \<or> ch = ARW_RIGHT \<or> ch = ARW_LEFT then
          Inr \<lparr>run = True, editor = moveCursor ed ch, buffer = b', printed = []\<rparr>
        else if ch = PG_UP then
          Inr \<lparr>run = True, editor = pageLoop ARW_UP 0 ed, buffer = b', printed = []\<rparr>
        else if ch = PG_DOWN then
          Inr \<lparr>run = True, editor = pageLoop ARW_DOWN 0 ed, buffer = b', printed = []\<rparr>
        else if ch < 32 then
          Inr \<lparr>run = True, editor = ed, buffer = b', printed = []\<rparr>
        else if ch = 127 then
          Inr \<lparr>run = True, editor = ed, buffer = b', printed = []\<rparr>
        else
          Inr \<lparr>run = True, editor = ed, buffer = b', printed = []\<rparr>)"

section \<open>Rendering\<close>

text \<open>
  Go's \<^verbatim>\<open>/\<close> on integers truncates towards zero, where \<open>div\<close> rounds down.
  Both divisors of the program are positive constants.
\<close>

definition quo :: "int \<Rightarrow> int \<Rightarrow> int" where
  "quo a b = sgn a * sgn b * (\<bar>a\<bar> div \<bar>b\<bar>)"

text \<open>How \<^verbatim>\<open>fmt.Print\<close> writes an \<^verbatim>\<open>int\<close>: decimal digits, a minus sign first if negative.\<close>

fun decimal :: "nat \<Rightarrow> string" where
  "decimal n =
     (if n < 10 then [''0123456789'' ! n]
      else decimal (n div 10) @ [''0123456789'' ! (n mod 10)])"

declare decimal.simps [simp del]

definition itoa :: "int \<Rightarrow> string" where
  "itoa i = (if i < 0 then CHR ''-'' # decimal (nat (- i)) else decimal (nat i))"

definition message :: string where
  "message = ''Welcome to this stupid text editor :)''"

definition clear_line :: string where
  "clear_line = ESC # ''[K''"

text \<open>
  The padding loop of \<^verbatim>\<open>drawRows\<close>, lines 170 to 172:
  \<^verbatim>\<open>for i := 1; i <= padding; i++ { screen += " " }\<close>.
\<close>

function padLoop :: "int \<Rightarrow> int \<Rightarrow> string \<Rightarrow> string" where
  "padLoop i padding screen =
     (if i \<le> padding then padLoop (i + 1) padding (screen @ '' '') else screen)"
  by pat_completeness auto
termination
  by (relation "measure (\<lambda>(i, padding, screen). nat (padding + 1 - i))") auto

declare padLoop.simps [simp del]

text \<open>
  One pass through the body of the row loop, lines 158 to 182: the screen buffer
  after row \<open>y\<close>. The slice expression \<^verbatim>\<open>screen[:ed.width]\<close> panics in Go
  unless \<open>0 \<le> width \<le> len(screen)\<close>.
\<close>

definition drawRow :: "Editor \<Rightarrow> int \<Rightarrow> string \<Rightarrow> panic + string" where
  "drawRow ed y screen =
     (case
        (if y = quo (height ed) 3 then
           (case
              (if int (length message) > width ed then
                 (if 0 \<le> width ed \<and> width ed \<le> int (length screen)
                  then Inr (take (nat (width ed)) screen)
                  else Inl SliceBoundsOutOfRange)
               else Inr screen)
            of Inl e \<Rightarrow> Inl e
             | Inr screen1 \<Rightarrow>
                let padding = quo (width ed - int (length message)) 2 in
                Inr (padLoop 1 padding (screen1 @ ''~'') @ message))
         else Inr (screen @ ''~''))
      of Inl e \<Rightarrow> Inl e
       | Inr screen2 \<Rightarrow>
          let screen3 = screen2 @ clear_line in
          Inr (if y < height ed - 1 then screen3 @ [CR, LF] else screen3))"

text \<open>The row loop, \<^verbatim>\<open>for y := 0; y < ed.height; y++\<close>, from row \<open>y\<close> on.\<close>

function drawRowsLoop :: "Editor \<Rightarrow> int \<Rightarrow> string \<Rightarrow> panic + string" where
  "drawRowsLoop ed y screen =
     (if y < height ed then
        (case drawRow ed y screen of
           Inl e \<Rightarrow> Inl e
         | Inr screen' \<Rightarrow> drawRowsLoop ed (y + 1) screen')
      else Inr screen)"
  by pat_completeness auto
termination
  by (relation "measure (\<lambda>(ed, y, screen). nat (height ed - y))") auto

declare drawRowsLoop.simps [simp del]

text \<open>
  \<^verbatim>\<open>drawRows\<close>, lines 154 to 185: the text it prints. It prints once, after the
  loop, so a call that panics has printed nothing.
\<close>

definition drawRows :: "Editor \<Rightarrow> panic + string" where
  "drawRows ed = drawRowsLoop ed 0 []"

definition hide_cursor :: string where
  "hide_cursor = ESC # ''[?25l''"

definition show_cursor :: string where
  "show_cursor = ESC # ''[?25h''"

definition cursor_home :: string where
  "cursor_home = ESC # ''[H''"

text \<open>
  \<^verbatim>\<open>refresh\<close>, lines 135 to 149: the text printed by the call, and the panic
  if \<^verbatim>\<open>drawRows\<close> raised one (the two sequences before it are out by then).
  \<^verbatim>\<open>fmt.Print\<close> puts no space between operands when one of two neighbours
  is a string.
\<close>

definition refresh :: "Editor \<Rightarrow> string \<times> panic option" where
  "refresh ed =
     (case drawRows ed of
        Inl e \<Rightarrow> (hide_cursor @ cursor_home, Some e)
      | Inr screen \<Rightarrow>
          (hide_cursor @ cursor_home @ screen
             @ ESC # ''['' @ itoa (cy ed + 1) @ '';'' @ itoa (cx ed + 1) @ ''H''
             @ show_cursor,
           None))"

section \<open>Notions used by the properties\<close>

text \<open>The cursor lies inside a viewport of at least one column and one row.\<close>

definition in_bounds :: "Editor \<Rightarrow> bool" where
  "in_bounds ed \<longleftrightarrow>
     1 \<le> width ed \<and> 1 \<le> height ed \<and>
     0 \<le> cx ed \<and> cx ed < width ed \<and> 0 \<le> cy ed \<and> cy ed < height ed"

text \<open>
  The remainders of an \<^verbatim>\<open>ESC [\<close> sequence that are no recognized key, as the
  specification lists them: a digit other than 5 and 6 before \<^verbatim>\<open>~\<close>, a digit
  before a byte that is not \<^verbatim>\<open>~\<close>, a third byte that is neither one of the
  letters A to D nor a digit.
\<close>

definition unrecognized :: "byte \<Rightarrow> byte \<Rightarrow> bool" where
  "unrecognized c2 c3 \<longleftrightarrow>
     (let digit = (byte_of CHR ''0'' \<le> c2 \<and> c2 \<le> byte_of CHR ''9'');
          letter = (c2 \<in> {byte_of CHR ''A'', byte_of CHR ''B'', byte_of CHR ''C'', byte_of CHR ''D''})
      in digit \<and> c2 \<noteq> byte_of CHR ''5'' \<and> c2 \<noteq> byte_of CHR ''6'' \<and> c3 = byte_of CHR ''~''
         \<or> digit \<and> c3 \<noteq> byte_of CHR ''~''
         \<or> \<not> letter \<and> \<not> digit)"

text \<open>
  The frame as the specification describes it, for comparison with \<^verbatim>\<open>refresh\<close>:
  row \<open>y\<close> is the marker alone, or on row \<open>height / 3\<close> the marker, the padding
  of \<open>(width - len(message)) / 2\<close> spaces and the message; every row ends with
  the clear-to-end-of-line sequence, and every row but the last with a line break.
  The frame is the hide-cursor sequence, the home sequence, the \<open>height\<close> rows,
  the cursor position in 1-indexed coordinates, and the show-cursor sequence.
\<close>

definition spec_row :: "Editor \<Rightarrow> int \<Rightarrow> string" where
  "spec_row ed y =
     (if y = height ed div 3
      then ''~'' @ replicate (nat ((width ed - int (length message)) div 2)) CHR '' '' @ message
      else ''~'')
     @ ESC # ''[K''
     @ (if y < height ed - 1 then [CR, LF] else [])"

definition spec_frame :: "Editor \<Rightarrow> string" where
  "spec_frame ed =
     ESC # ''[?25l'' @ ESC # ''[H''
     @ concat (map (\<lambda>n. spec_row ed (int n)) [0..<nat (height ed)])
     @ ESC # ''['' @ itoa (cy ed + 1) @ '';'' @ itoa (cx ed + 1) @ ''H''
     @ ESC # ''[?25h''"

text \<open>A row that carries the marker only, as \<^verbatim>\<open>drawRows\<close> adds it to the buffer.\<close>

definition marker_row :: "Editor \<Rightarrow> int \<Rightarrow> string" where
  "marker_row ed y = ''~'' @ ESC # ''[K'' @ (if y < height ed - 1 then [CR, LF] else [])"

section \<open>Cursor movement: proofs\<close>

lemmas EdKey_defs = ARW_LEFT_def ARW_UP_def ARW_RIGHT_def ARW_DOWN_def PG_UP_def PG_DOWN_def

lemma height_moveCursor [simp]: "height (moveCursor ed ch) = height ed"
  by (simp add: moveCursor_def)

lemma width_moveCursor [simp]: "width (moveCursor ed ch) = width ed"
  by (simp add: moveCursor_def)

lemma in_bounds_moveCursor: "in_bounds ed \<Longrightarrow> in_bounds (moveCursor ed ch)"
  by (auto simp: in_bounds_def moveCursor_def)

text \<open>The page loop started at \<open>i\<close> makes \<open>height + 1 - i\<close> single steps.\<close>

lemma pageLoop_funpow:
  "0 \<le> i \<Longrightarrow> pageLoop k i ed = ((\<lambda>e. moveCursor e k) ^^ nat (height ed + 1 - i)) ed"
proof (induction k i ed rule: pageLoop.induct)
  case (1 k i ed)
  show ?case
  proof (cases "i \<le> height ed")
    case True
    then have n: "nat (height ed + 1 - i) = Suc (nat (height ed + 1 - (i + 1)))"
      using "1.prems" by simp
    have "pageLoop k i ed = pageLoop k (i + 1) (moveCursor ed k)"
      using True by (subst pageLoop.simps) simp
    also have "\<dots> = ((\<lambda>e. moveCursor e k) ^^ nat (height ed + 1 - (i + 1))) (moveCursor ed k)"
      using "1.IH" [OF True] "1.prems" by simp
    also have "\<dots> = ((\<lambda>e. moveCursor e k) ^^ nat (height ed + 1 - i)) ed"
      unfolding n by (simp only: funpow_Suc_right o_apply)
    finally show ?thesis .
  next
    case False
    then show ?thesis by (subst pageLoop.simps) simp
  qed
qed

lemma pageLoop_0: "pageLoop k 0 ed = ((\<lambda>e. moveCursor e k) ^^ nat (height ed + 1)) ed"
  using pageLoop_funpow [of 0 k ed] by simp

lemma funpow_up:
  "0 \<le> cy ed \<Longrightarrow> ((\<lambda>e. moveCursor e ARW_UP) ^^ n) ed = ed\<lparr>cy := max 0 (cy ed - int n)\<rparr>"
proof (induction n)
  case 0
  then show ?case by simp
next
  case (Suc n)
  then show ?case by (auto simp: moveCursor_def EdKey_defs max_def)
qed

lemma funpow_down:
  "cy ed < height ed \<Longrightarrow>
   ((\<lambda>e. moveCursor e ARW_DOWN) ^^ n) ed = ed\<lparr>cy := min (height ed - 1) (cy ed + int n)\<rparr>"
proof (induction n)
  case 0
  then show ?case by simp
next
  case (Suc n)
  then show ?case by (auto simp: moveCursor_def EdKey_defs min_def)
qed

lemma in_bounds_funpow: "in_bounds ed \<Longrightarrow> in_bounds (((\<lambda>e. moveCursor e k) ^^ n) ed)"
  by (induction n) (simp_all add: in_bounds_moveCursor)

lemma size_funpow:
  "width (((\<lambda>e. moveCursor e k) ^^ n) ed) = width ed
   \<and> height (((\<lambda>e. moveCursor e k) ^^ n) ed) = height ed"
  by (induction n) simp_all

section \<open>The key decoder: proofs\<close>

lemma length_stdin_Read [simp]: "length (stdin_Read inp b) = length b"
  by (simp add: stdin_Read_def)

lemma length_four: "length xs = 4 \<Longrightarrow> \<exists>a b c d. xs = [a, b, c, d]"
  by (auto simp: eval_nat_numeral length_Suc_conv)

text \<open>On the four-byte buffer of \<^verbatim>\<open>main\<close> the decoder always returns a key.\<close>

lemma readKey_total:
  assumes "length b = 4"
  shows "\<exists>ch. readKey inp b = Inr (ch, stdin_Read inp b)"
proof -
  from assms have "length (stdin_Read inp b) = 4" by simp
  then obtain c0 c1 c2 c3 where "stdin_Read inp b = [c0, c1, c2, c3]"
    using length_four by blast
  then show ?thesis
    by (simp add: readKey_def index_def Let_def)
qed

section \<open>Properties of the cursor\<close>

text \<open>
  C1. From a cursor inside a viewport of at least one column and one row, whatever
  the read puts into the four-byte buffer (an arrow, a page key, a printable byte,
  a byte that is ignored, the quit key), \<^verbatim>\<open>processKeyPress\<close> returns, and the
  cursor it leaves is inside the same viewport: \<open>0 \<le> cx < width\<close> and
  \<open>0 \<le> cy < height\<close>.
\<close>

theorem cursor_stays_in_bounds:
  assumes "in_bounds ed" and "length b = 4"
  shows "\<exists>r. processKeyPress ed inp b = Inr r \<and> in_bounds (editor r)
              \<and> width (editor r) = width ed \<and> height (editor r) = height ed"
proof -
  from readKey_total [OF assms(2)] obtain ch where
    rk: "readKey inp b = Inr (ch, stdin_Read inp b)" by blast
  show ?thesis
    using assms
    by (simp add: processKeyPress_def rk Let_def pageLoop_0 size_funpow
        in_bounds_funpow in_bounds_moveCursor)
qed

theorem cursor_stays_in_bounds_witness:
  "in_bounds \<lparr>width = 80, height = 24, cx = 79, cy = 23\<rparr>
   \<and> length [0, 0, 0, 0 :: byte] = 4
   \<and> (\<exists>r. processKeyPress \<lparr>width = 80, height = 24, cx = 79, cy = 23\<rparr>
              [0x1b, 0x5b, 0x36, 0x7e] [0, 0, 0, 0] = Inr r
            \<and> in_bounds (editor r) \<and> width (editor r) = 80 \<and> height (editor r) = 24)"
  using cursor_stays_in_bounds
    [of "\<lparr>width = 80, height = 24, cx = 79, cy = 23\<rparr>" "[0, 0, 0, 0]" "[0x1b, 0x5b, 0x36, 0x7e]"]
  by (simp add: in_bounds_def)

text \<open>
  C9. With the cursor inside the viewport: if \<open>0 < cx\<close>, a move left followed by
  a move right gives the state back; if \<open>cx < width - 1\<close>, a move right followed
  by a move left gives it back; at \<open>cx = 0\<close> a move left changes nothing and at
  \<open>cx = width - 1\<close> a move right changes nothing.
\<close>

theorem left_right_inverse:
  assumes "in_bounds ed"
  shows "(0 < cx ed \<longrightarrow> moveCursor (moveCursor ed ARW_LEFT) ARW_RIGHT = ed)
       \<and> (cx ed < width ed - 1 \<longrightarrow> moveCursor (moveCursor ed ARW_RIGHT) ARW_LEFT = ed)
       \<and> (cx ed = 0 \<longrightarrow> moveCursor ed ARW_LEFT = ed)
       \<and> (cx ed = width ed - 1 \<longrightarrow> moveCursor ed ARW_RIGHT = ed)"
  using assms by (simp add: in_bounds_def moveCursor_def EdKey_defs)

theorem left_right_inverse_witness:
  "in_bounds \<lparr>width = 3, height = 2, cx = 1, cy = 0\<rparr>
   \<and> in_bounds \<lparr>width = 3, height = 2, cx = 0, cy = 0\<rparr>
   \<and> in_bounds \<lparr>width = 3, height = 2, cx = 2, cy = 0\<rparr>
   \<and> moveCursor (moveCursor \<lparr>width = 3, height = 2, cx = 1, cy = 0\<rparr> ARW_LEFT) ARW_RIGHT
       = \<lparr>width = 3, height = 2, cx = 1, cy = 0\<rparr>
   \<and> moveCursor (moveCursor \<lparr>width = 3, height = 2, cx = 1, cy = 0\<rparr> ARW_RIGHT) ARW_LEFT
       = \<lparr>width = 3, height = 2, cx = 1, cy = 0\<rparr>
   \<and> moveCursor \<lparr>width = 3, height = 2, cx = 0, cy = 0\<rparr> ARW_LEFT
       = \<lparr>width = 3, height = 2, cx = 0, cy = 0\<rparr>
   \<and> moveCursor \<lparr>width = 3, height = 2, cx = 2, cy = 0\<rparr> ARW_RIGHT
       = \<lparr>width = 3, height = 2, cx = 2, cy = 0\<rparr>"
  using left_right_inverse [of "\<lparr>width = 3, height = 2, cx = 1, cy = 0\<rparr>"]
    left_right_inverse [of "\<lparr>width = 3, height = 2, cx = 0, cy = 0\<rparr>"]
    left_right_inverse [of "\<lparr>width = 3, height = 2, cx = 2, cy = 0\<rparr>"]
  by (simp add: in_bounds_def)

section \<open>Properties of the key decoder\<close>

text \<open>
  C4. When the read leaves \<^verbatim>\<open>ESC [\<close> in the first two bytes of the four-byte
  buffer, a third byte A, B, C or D decodes to \<^verbatim>\<open>ARW_UP\<close>, \<^verbatim>\<open>ARW_DOWN\<close>,
  \<^verbatim>\<open>ARW_RIGHT\<close> or \<^verbatim>\<open>ARW_LEFT\<close>, whatever the fourth byte is; the bytes
  \<^verbatim>\<open>5 ~\<close> decode to \<^verbatim>\<open>PG_UP\<close> and \<^verbatim>\<open>6 ~\<close> to \<^verbatim>\<open>PG_DOWN\<close>.
\<close>

theorem decode_sequences:
  assumes "stdin_Read inp b = [0x1b, byte_of CHR ''['', c2, c3]"
  shows "(c2 = byte_of CHR ''A'' \<longrightarrow> readKey inp b = Inr (ARW_UP, stdin_Read inp b))
       \<and> (c2 = byte_of CHR ''B'' \<longrightarrow> readKey inp b = Inr (ARW_DOWN, stdin_Read inp b))
       \<and> (c2 = byte_of CHR ''C'' \<longrightarrow> readKey inp b = Inr (ARW_RIGHT, stdin_Read inp b))
       \<and> (c2 = byte_of CHR ''D'' \<longrightarrow> readKey inp b = Inr (ARW_LEFT, stdin_Read inp b))
       \<and> (c2 = byte_of CHR ''5'' \<and> c3 = byte_of CHR ''~''
            \<longrightarrow> readKey inp b = Inr (PG_UP, stdin_Read inp b))
       \<and> (c2 = byte_of CHR ''6'' \<and> c3 = byte_of CHR ''~''
            \<longrightarrow> readKey inp b = Inr (PG_DOWN, stdin_Read inp b))"
  using assms by (simp add: readKey_def index_def Let_def byte_of_def)

theorem decode_sequences_witness:
  "readKey [0x1b, 0x5b, 0x41] [0, 0, 0, 0] = Inr (ARW_UP, [0x1b, 0x5b, 0x41, 0])
   \<and> readKey [0x1b, 0x5b, 0x42] [0, 0, 0, 0] = Inr (ARW_DOWN, [0x1b, 0x5b, 0x42, 0])
   \<and> readKey [0x1b, 0x5b, 0x43] [0, 0, 0, 0] = Inr (ARW_RIGHT, [0x1b, 0x5b, 0x43, 0])
   \<and> readKey [0x1b, 0x5b, 0x44] [0, 0, 0, 0] = Inr (ARW_LEFT, [0x1b, 0x5b, 0x44, 0])
   \<and> readKey [0x1b, 0x5b, 0x35, 0x7e] [0, 0, 0, 0] = Inr (PG_UP, [0x1b, 0x5b, 0x35, 0x7e])
   \<and> readKey [0x1b, 0x5b, 0x36, 0x7e] [0, 0, 0, 0] = Inr (PG_DOWN, [0x1b, 0x5b, 0x36, 0x7e])"
  using decode_sequences [of "[0x1b, 0x5b, 0x41]" "[0, 0, 0, 0]" "0x41" 0]
    decode_sequences [of "[0x1b, 0x5b, 0x42]" "[0, 0, 0, 0]" "0x42" 0]
    decode_sequences [of "[0x1b, 0x5b, 0x43]" "[0, 0, 0, 0]" "0x43" 0]
    decode_sequences [of "[0x1b, 0x5b, 0x44]" "[0, 0, 0, 0]" "0x44" 0]
    decode_sequences [of "[0x1b, 0x5b, 0x35, 0x7e]" "[0, 0, 0, 0]" "0x35" "0x7e"]
    decode_sequences [of "[0x1b, 0x5b, 0x36, 0x7e]" "[0, 0, 0, 0]" "0x36" "0x7e"]
  by (simp add: stdin_Read_def byte_of_def)

text \<open>
  C7. When the first byte of the four-byte buffer is \<^verbatim>\<open>ESC\<close> and the second is
  not \<^verbatim>\<open>[\<close>, the decoder returns the key \<open>0x1b\<close>, whatever the third and
  fourth bytes are.
\<close>

theorem bare_escape:
  assumes "stdin_Read inp b = [0x1b, c1, c2, c3]" and "c1 \<noteq> byte_of CHR ''[''"
  shows "readKey inp b = Inr (0x1b, stdin_Read inp b)"
  using assms by (simp add: readKey_def index_def Let_def)

theorem bare_escape_witness:
  "stdin_Read [0x1b] [0, 0, 0x41, 0x7e] = [0x1b, 0, 0x41, 0x7e]
   \<and> (0 :: byte) \<noteq> byte_of CHR ''[''
   \<and> readKey [0x1b] [0, 0, 0x41, 0x7e] = Inr (0x1b, [0x1b, 0, 0x41, 0x7e])"
  using bare_escape [of "[0x1b]" "[0, 0, 0x41, 0x7e]" 0 "0x41" "0x7e"]
  by (simp add: stdin_Read_def byte_of_def)

section \<open>Properties of key processing\<close>

text \<open>
  C6. When the read leaves \<open>0x11\<close> (\<^verbatim>\<open>0x1f & 'q'\<close>) in the first byte of the
  four-byte buffer, whatever the other three bytes are, \<^verbatim>\<open>processKeyPress\<close>
  prints the clear-screen sequence \<^verbatim>\<open>ESC [ H ESC [ 2 J\<close>, returns \<open>false\<close> and
  leaves the editor as it was.
\<close>

theorem quit_key:
  assumes "length b = 4" and "stdin_Read inp b ! 0 = 0x11"
  shows "processKeyPress ed inp b =
           Inr \<lparr>run = False, editor = ed, buffer = (stdin_Read inp b)[1 := 0],
                printed = ESC # ''[H'' @ ESC # ''[2J''\<rparr>"
proof -
  from assms(1) have "length (stdin_Read inp b) = 4" by simp
  then obtain c0 c1 c2 c3 where buf: "stdin_Read inp b = [c0, c1, c2, c3]"
    using length_four by blast
  with assms(2) have c0: "c0 = 0x11" by simp
  have "readKey inp b = Inr (0x11, stdin_Read inp b)"
    by (simp add: readKey_def index_def Let_def buf c0)
  then show ?thesis
    by (simp add: processKeyPress_def clear_screen_def buf)
qed

theorem quit_key_witness:
  "length [0x1b, 0x5b, 0x41, 0x7e :: byte] = 4
   \<and> stdin_Read [0x11] [0x1b, 0x5b, 0x41, 0x7e] ! 0 = 0x11
   \<and> processKeyPress \<lparr>width = 80, height = 24, cx = 5, cy = 7\<rparr> [0x11] [0x1b, 0x5b, 0x41, 0x7e]
       = Inr \<lparr>run = False, editor = \<lparr>width = 80, height = 24, cx = 5, cy = 7\<rparr>,
              buffer = [0x11, 0, 0x41, 0x7e], printed = ESC # ''[H'' @ ESC # ''[2J''\<rparr>"
  using quit_key [of "[0x1b, 0x5b, 0x41, 0x7e]" "[0x11]" "\<lparr>width = 80, height = 24, cx = 5, cy = 7\<rparr>"]
  by (simp add: stdin_Read_def)

text \<open>
  C8. When the buffer starts with \<^verbatim>\<open>ESC [\<close> and the rest is no recognized
  sequence, the decoder does not panic: it returns the key \<open>0x1b\<close>, which
  \<^verbatim>\<open>processKeyPress\<close> skips as a control character. The call returns \<open>true\<close>,
  prints nothing and leaves the editor as it was.
\<close>

theorem unrecognized_sequence_ignored:
  assumes "stdin_Read inp b = [0x1b, byte_of CHR ''['', c2, c3]" and "unrecognized c2 c3"
  shows "readKey inp b = Inr (0x1b, stdin_Read inp b)
       \<and> processKeyPress ed inp b =
           Inr \<lparr>run = True, editor = ed, buffer = [0x1b, 0, c2, c3], printed = []\<rparr>"
proof -
  have rk: "readKey inp b = Inr (0x1b, stdin_Read inp b)"
    using assms
    by (auto simp: readKey_def index_def Let_def unrecognized_def byte_of_def)
  then show ?thesis
    by (simp add: processKeyPress_def assms(1) EdKey_defs)
qed

theorem unrecognized_sequence_ignored_witness:
  "unrecognized 0x37 0x7e \<and> unrecognized 0x35 0x3b \<and> unrecognized 0x5a 0
   \<and> processKeyPress \<lparr>width = 80, height = 24, cx = 5, cy = 7\<rparr> [0x1b, 0x5b, 0x37, 0x7e] [0, 0, 0, 0]
       = Inr \<lparr>run = True, editor = \<lparr>width = 80, height = 24, cx = 5, cy = 7\<rparr>,
              buffer = [0x1b, 0, 0x37, 0x7e], printed = []\<rparr>
   \<and> processKeyPress \<lparr>width = 80, height = 24, cx = 5, cy = 7\<rparr> [0x1b, 0x5b, 0x35, 0x3b] [0, 0, 0, 0]
       = Inr \<lparr>run = True, editor = \<lparr>width = 80, height = 24, cx = 5, cy = 7\<rparr>,
              buffer = [0x1b, 0, 0x35, 0x3b], printed = []\<rparr>
   \<and> processKeyPress \<lparr>width = 80, height = 24, cx = 5, cy = 7\<rparr> [0x1b, 0x5b, 0x5a] [0, 0, 0, 0]
       = Inr \<lparr>run = True, editor = \<lparr>width = 80, height = 24, cx = 5, cy = 7\<rparr>,
              buffer = [0x1b, 0, 0x5a, 0], printed = []\<rparr>"
  using unrecognized_sequence_ignored
      [of "[0x1b, 0x5b, 0x37, 0x7e]" "[0, 0, 0, 0]" "0x37" "0x7e" "\<lparr>width = 80, height = 24, cx = 5, cy = 7\<rparr>"]
    unrecognized_sequence_ignored
      [of "[0x1b, 0x5b, 0x35, 0x3b]" "[0, 0, 0, 0]" "0x35" "0x3b" "\<lparr>width = 80, height = 24, cx = 5, cy = 7\<rparr>"]
    unrecognized_sequence_ignored
      [of "[0x1b, 0x5b, 0x5a]" "[0, 0, 0, 0]" "0x5a" 0 "\<lparr>width = 80, height = 24, cx = 5, cy = 7\<rparr>"]
  by (simp add: stdin_Read_def byte_of_def unrecognized_def)

text \<open>
  C5. In every state, the Page Up sequence makes \<^verbatim>\<open>processKeyPress\<close> apply
  the single step \<^verbatim>\<open>moveCursor(ARW_UP)\<close> exactly \<open>height + 1\<close> times, and the
  Page Down sequence the step \<^verbatim>\<open>moveCursor(ARW_DOWN)\<close> exactly \<open>height + 1\<close>
  times: the count is stated for all states, also those where one step more or
  less gives another row. From a cursor inside the viewport the first leaves
  the cursor on row \<open>0\<close> and the second on row \<open>height - 1\<close>, from any row,
  so also from row \<open>0\<close>.
\<close>

theorem page_keys:
  "(stdin_Read inp b = [0x1b, byte_of CHR ''['', byte_of CHR ''5'', byte_of CHR ''~''] \<longrightarrow>
      processKeyPress ed inp b =
        Inr \<lparr>run = True,
             editor = ((\<lambda>e. moveCursor e ARW_UP) ^^ nat (height ed + 1)) ed,
             buffer = [0x1b, 0, byte_of CHR ''5'', byte_of CHR ''~''], printed = []\<rparr>)
   \<and> (stdin_Read inp b = [0x1b, byte_of CHR ''['', byte_of CHR ''6'', byte_of CHR ''~''] \<longrightarrow>
      processKeyPress ed inp b =
        Inr \<lparr>run = True,
             editor = ((\<lambda>e. moveCursor e ARW_DOWN) ^^ nat (height ed + 1)) ed,
             buffer = [0x1b, 0, byte_of CHR ''6'', byte_of CHR ''~''], printed = []\<rparr>)
   \<and> (in_bounds ed \<longrightarrow>
        ((\<lambda>e. moveCursor e ARW_UP) ^^ nat (height ed + 1)) ed = ed\<lparr>cy := 0\<rparr>
      \<and> ((\<lambda>e. moveCursor e ARW_DOWN) ^^ nat (height ed + 1)) ed = ed\<lparr>cy := height ed - 1\<rparr>)"
proof (intro conjI impI)
  assume buf: "stdin_Read inp b = [0x1b, byte_of CHR ''['', byte_of CHR ''5'', byte_of CHR ''~'']"
  then have "readKey inp b = Inr (PG_UP, stdin_Read inp b)"
    by (simp add: readKey_def index_def Let_def byte_of_def)
  then show "processKeyPress ed inp b =
      Inr \<lparr>run = True, editor = ((\<lambda>e. moveCursor e ARW_UP) ^^ nat (height ed + 1)) ed,
           buffer = [0x1b, 0, byte_of CHR ''5'', byte_of CHR ''~''], printed = []\<rparr>"
    by (simp add: processKeyPress_def buf EdKey_defs pageLoop_0)
next
  assume buf: "stdin_Read inp b = [0x1b, byte_of CHR ''['', byte_of CHR ''6'', byte_of CHR ''~'']"
  then have "readKey inp b = Inr (PG_DOWN, stdin_Read inp b)"
    by (simp add: readKey_def index_def Let_def byte_of_def)
  then show "processKeyPress ed inp b =
      Inr \<lparr>run = True, editor = ((\<lambda>e. moveCursor e ARW_DOWN) ^^ nat (height ed + 1)) ed,
           buffer = [0x1b, 0, byte_of CHR ''6'', byte_of CHR ''~''], printed = []\<rparr>"
    by (simp add: processKeyPress_def buf EdKey_defs pageLoop_0)
next
  assume "in_bounds ed"
  then have "0 \<le> cy ed" and "cy ed < height ed"
    by (simp_all add: in_bounds_def)
  then show "((\<lambda>e. moveCursor e ARW_UP) ^^ nat (height ed + 1)) ed = ed\<lparr>cy := 0\<rparr>"
    by (simp add: funpow_up max_def)
next
  assume "in_bounds ed"
  then have "0 \<le> cy ed" and "cy ed < height ed"
    by (simp_all add: in_bounds_def)
  then show "((\<lambda>e. moveCursor e ARW_DOWN) ^^ nat (height ed + 1)) ed = ed\<lparr>cy := height ed - 1\<rparr>"
    by (simp add: funpow_down min_def)
qed

text \<open>
  The first two instances are states where the number of steps shows: with
  \<open>height = 3\<close> the four steps take row 10 up to row 6 and row \<open>-10\<close> down to
  row \<open>-6\<close>; three steps or five would end on another row. The last two are
  inside a viewport of 24 rows.
\<close>

theorem page_keys_witness:
  "processKeyPress \<lparr>width = 80, height = 3, cx = 5, cy = 10\<rparr> [0x1b, 0x5b, 0x35, 0x7e] [0, 0, 0, 0]
       = Inr \<lparr>run = True, editor = \<lparr>width = 80, height = 3, cx = 5, cy = 6\<rparr>,
              buffer = [0x1b, 0, 0x35, 0x7e], printed = []\<rparr>
   \<and> processKeyPress \<lparr>width = 80, height = 3, cx = 5, cy = - 10\<rparr> [0x1b, 0x5b, 0x36, 0x7e] [0, 0, 0, 0]
       = Inr \<lparr>run = True, editor = \<lparr>width = 80, height = 3, cx = 5, cy = - 6\<rparr>,
              buffer = [0x1b, 0, 0x36, 0x7e], printed = []\<rparr>
   \<and> in_bounds \<lparr>width = 80, height = 24, cx = 5, cy = 0\<rparr>
   \<and> processKeyPress \<lparr>width = 80, height = 24, cx = 5, cy = 0\<rparr> [0x1b, 0x5b, 0x36, 0x7e] [0, 0, 0, 0]
       = Inr \<lparr>run = True, editor = \<lparr>width = 80, height = 24, cx = 5, cy = 23\<rparr>,
              buffer = [0x1b, 0, 0x36, 0x7e], printed = []\<rparr>
   \<and> in_bounds \<lparr>width = 80, height = 24, cx = 5, cy = 7\<rparr>
   \<and> processKeyPress \<lparr>width = 80, height = 24, cx = 5, cy = 7\<rparr> [0x1b, 0x5b, 0x35, 0x7e] [0, 0, 0, 0]
       = Inr \<lparr>run = True, editor = \<lparr>width = 80, height = 24, cx = 5, cy = 0\<rparr>,
              buffer = [0x1b, 0, 0x35, 0x7e], printed = []\<rparr>"
  using page_keys [of "[0x1b, 0x5b, 0x35, 0x7e]" "[0, 0, 0, 0]" "\<lparr>width = 80, height = 3, cx = 5, cy = 10\<rparr>"]
    page_keys [of "[0x1b, 0x5b, 0x36, 0x7e]" "[0, 0, 0, 0]" "\<lparr>width = 80, height = 3, cx = 5, cy = - 10\<rparr>"]
    page_keys [of "[0x1b, 0x5b, 0x36, 0x7e]" "[0, 0, 0, 0]" "\<lparr>width = 80, height = 24, cx = 5, cy = 0\<rparr>"]
    page_keys [of "[0x1b, 0x5b, 0x35, 0x7e]" "[0, 0, 0, 0]" "\<lparr>width = 80, height = 24, cx = 5, cy = 7\<rparr>"]
  by (simp add: in_bounds_def stdin_Read_def byte_of_def funpow_up funpow_down)

section \<open>Rendering: proofs\<close>

lemma quo_nonneg: "0 \<le> a \<Longrightarrow> 0 < b \<Longrightarrow> quo a b = a div b"
  by (cases "a = 0") (simp_all add: quo_def)

lemma length_message: "length message = 37"
  by (simp add: message_def)

lemma padLoop_replicate:
  "1 \<le> i \<Longrightarrow> padLoop i p s = s @ replicate (nat (p + 1 - i)) CHR '' ''"
proof (induction i p s rule: padLoop.induct)
  case (1 i p s)
  show ?case
  proof (cases "i \<le> p")
    case True
    then have n: "nat (p + 1 - i) = Suc (nat (p + 1 - (i + 1)))"
      by simp
    have "padLoop i p s = padLoop (i + 1) p (s @ '' '')"
      using True by (subst padLoop.simps) simp
    also have "\<dots> = (s @ '' '') @ replicate (nat (p + 1 - (i + 1))) CHR '' ''"
      using "1.IH" [OF True] "1.prems" by simp
    also have "\<dots> = s @ replicate (nat (p + 1 - i)) CHR '' ''"
      unfolding n by simp
    finally show ?thesis .
  next
    case False
    then show ?thesis by (subst padLoop.simps) simp
  qed
qed

lemma drawRow_wide:
  assumes "int (length message) \<le> width ed" and "0 \<le> height ed"
  shows "drawRow ed y screen = Inr (screen @ spec_row ed y)"
proof -
  have w: "0 \<le> width ed - 37" using assms(1) by (simp add: length_message)
  show ?thesis
    using assms w
    by (simp add: drawRow_def spec_row_def Let_def quo_nonneg padLoop_replicate
        clear_line_def length_message)
qed

lemma drawRowsLoop_wide:
  "int (length message) \<le> width ed \<Longrightarrow> 0 \<le> y \<Longrightarrow>
   drawRowsLoop ed y screen =
     Inr (screen @ concat (map (\<lambda>n. spec_row ed (int n)) [nat y..<nat (height ed)]))"
proof (induction ed y screen rule: drawRowsLoop.induct)
  case (1 ed y screen)
  show ?case
  proof (cases "y < height ed")
    case True
    with "1.prems" have h: "0 \<le> height ed" by simp
    have row: "drawRow ed y screen = Inr (screen @ spec_row ed y)"
      using drawRow_wide [OF "1.prems"(1) h] .
    have upt: "[nat y..<nat (height ed)] = nat y # [nat (y + 1)..<nat (height ed)]"
      using True "1.prems"(2) by (simp add: upt_conv_Cons nat_add_distrib)
    have "drawRowsLoop ed y screen = drawRowsLoop ed (y + 1) (screen @ spec_row ed y)"
      using True by (subst drawRowsLoop.simps) (simp add: row)
    also have "\<dots> = Inr ((screen @ spec_row ed y)
        @ concat (map (\<lambda>n. spec_row ed (int n)) [nat (y + 1)..<nat (height ed)]))"
      using "1.IH" [OF True row] "1.prems" by simp
    finally show ?thesis
      using "1.prems"(2) by (simp add: upt)
  next
    case False
    then show ?thesis by (subst drawRowsLoop.simps) simp
  qed
qed

text \<open>Below the message row every row is a marker row.\<close>

lemma drawRow_marker:
  assumes "y \<noteq> height ed div 3" and "0 \<le> height ed"
  shows "drawRow ed y screen = Inr (screen @ marker_row ed y)"
  using assms by (simp add: drawRow_def marker_row_def Let_def quo_nonneg clear_line_def)

lemma drawRowsLoop_below:
  "0 \<le> y \<Longrightarrow> height ed div 3 < y \<Longrightarrow>
   drawRowsLoop ed y screen =
     Inr (screen @ concat (map (\<lambda>n. marker_row ed (int n)) [nat y..<nat (height ed)]))"
proof (induction ed y screen rule: drawRowsLoop.induct)
  case (1 ed y screen)
  show ?case
  proof (cases "y < height ed")
    case True
    with "1.prems" have h: "0 \<le> height ed" by simp
    have row: "drawRow ed y screen = Inr (screen @ marker_row ed y)"
      using drawRow_marker [of y ed] "1.prems" h by simp
    have upt: "[nat y..<nat (height ed)] = nat y # [nat (y + 1)..<nat (height ed)]"
      using True "1.prems"(1) by (simp add: upt_conv_Cons nat_add_distrib)
    have "drawRowsLoop ed y screen = drawRowsLoop ed (y + 1) (screen @ marker_row ed y)"
      using True by (subst drawRowsLoop.simps) (simp add: row)
    also have "\<dots> = Inr ((screen @ marker_row ed y)
        @ concat (map (\<lambda>n. marker_row ed (int n)) [nat (y + 1)..<nat (height ed)]))"
      using "1.IH" [OF True row] "1.prems" by simp
    finally show ?thesis
      using "1.prems"(1) by (simp add: upt)
  next
    case False
    then show ?thesis by (subst drawRowsLoop.simps) simp
  qed
qed

text \<open>
  Where the buffer built before the message row is at least \<open>width\<close> bytes long,
  a viewport narrower than the message gets the first \<open>width\<close> bytes of that
  buffer, then the marker and the whole message.
\<close>

lemma drawRowsLoop_truncates:
  "1 \<le> height ed \<Longrightarrow> 0 \<le> width ed \<Longrightarrow> width ed < int (length message) \<Longrightarrow>
   0 \<le> y \<Longrightarrow> y \<le> height ed div 3 \<Longrightarrow>
   width ed \<le> int (length screen) + 6 * (height ed div 3 - y) \<Longrightarrow>
   drawRowsLoop ed y screen =
     Inr (take (nat (width ed))
            (screen @ concat (map (\<lambda>n. marker_row ed (int n)) [nat y..<nat (height ed div 3)]))
          @ ''~'' @ message @ ESC # ''[K''
          @ (if height ed div 3 < height ed - 1 then [CR, LF] else [])
          @ concat (map (\<lambda>n. marker_row ed (int n)) [nat (height ed div 3 + 1)..<nat (height ed)]))"
proof (induction ed y screen rule: drawRowsLoop.induct)
  case (1 ed y screen)
  from "1.prems" have q: "quo (height ed) 3 = height ed div 3"
    by (simp add: quo_nonneg)
  from "1.prems" have lt: "y < height ed" by linarith
  show ?case
  proof (cases "y = height ed div 3")
    case True
    have neg: "quo (width ed - int (length message)) 2 \<le> 0"
      using "1.prems"(3) by (simp add: quo_def sgn_if)
    have pad: "padLoop 1 (quo (width ed - int (length message)) 2) s = s" for s
      using neg by (subst padLoop.simps) simp
    have last: "(height ed div 3 < height ed - 1) = (1 < height ed)"
      using "1.prems"(1) by linarith
    have row: "drawRow ed y screen =
        Inr (take (nat (width ed)) screen @ ''~'' @ message @ ESC # ''[K''
             @ (if height ed div 3 < height ed - 1 then [CR, LF] else []))"
      using "1.prems" True by (simp add: drawRow_def q Let_def pad clear_line_def last)
    have "drawRowsLoop ed y screen =
        drawRowsLoop ed (y + 1) (take (nat (width ed)) screen @ ''~'' @ message @ ESC # ''[K''
             @ (if height ed div 3 < height ed - 1 then [CR, LF] else []))"
      using lt by (subst drawRowsLoop.simps) (simp add: row)
    also have "\<dots> = Inr ((take (nat (width ed)) screen @ ''~'' @ message @ ESC # ''[K''
             @ (if height ed div 3 < height ed - 1 then [CR, LF] else []))
          @ concat (map (\<lambda>n. marker_row ed (int n)) [nat (y + 1)..<nat (height ed)]))"
      using "1.prems"(4) True by (intro drawRowsLoop_below) simp_all
    finally show ?thesis
      using True by simp
  next
    case False
    with "1.prems" have below: "y + 1 \<le> height ed div 3" by simp
    have h: "0 \<le> height ed" using "1.prems"(1) by simp
    have row: "drawRow ed y screen = Inr (screen @ marker_row ed y)"
      using drawRow_marker [OF False h] .
    have notlast: "y < height ed - 1" using below "1.prems"(1) by linarith
    have len: "int (length (screen @ marker_row ed y)) = int (length screen) + 6"
      using notlast by (simp add: marker_row_def)
    have upt: "[nat y..<nat (height ed div 3)] = nat y # [nat (y + 1)..<nat (height ed div 3)]"
      using below "1.prems"(4) by (simp add: upt_conv_Cons nat_add_distrib)
    have "drawRowsLoop ed y screen = drawRowsLoop ed (y + 1) (screen @ marker_row ed y)"
      using lt by (subst drawRowsLoop.simps) (simp add: row)
    also have "\<dots> = Inr (take (nat (width ed))
            ((screen @ marker_row ed y)
             @ concat (map (\<lambda>n. marker_row ed (int n)) [nat (y + 1)..<nat (height ed div 3)]))
          @ ''~'' @ message @ ESC # ''[K''
          @ (if height ed div 3 < height ed - 1 then [CR, LF] else [])
          @ concat (map (\<lambda>n. marker_row ed (int n)) [nat (height ed div 3 + 1)..<nat (height ed)]))"
      using "1.IH" [OF lt row] "1.prems" below len by simp
    finally show ?thesis
      using "1.prems"(4) by (simp add: upt)
  qed
qed

lemma drawRows_truncates:
  assumes "1 \<le> height ed" and "0 \<le> width ed" and "width ed < int (length message)"
    and "width ed \<le> 6 * (height ed div 3)"
  shows "drawRows ed =
     Inr (take (nat (width ed))
            (concat (map (\<lambda>n. marker_row ed (int n)) [0..<nat (height ed div 3)]))
          @ ''~'' @ message @ ESC # ''[K''
          @ (if height ed div 3 < height ed - 1 then [CR, LF] else [])
          @ concat (map (\<lambda>n. marker_row ed (int n)) [nat (height ed div 3 + 1)..<nat (height ed)]))"
  using assms drawRowsLoop_truncates [of ed 0 "[]"]
  by (simp add: drawRows_def)

text \<open>
  Where it is shorter, the slice expression panics on the message row: the rows
  before it put six bytes each into the buffer.
\<close>

lemma drawRowsLoop_narrow:
  "1 \<le> height ed \<Longrightarrow> width ed < int (length message) \<Longrightarrow> 6 * (height ed div 3) < width ed \<Longrightarrow>
   0 \<le> y \<Longrightarrow> y \<le> height ed div 3 \<Longrightarrow> int (length screen) = 6 * y \<Longrightarrow>
   drawRowsLoop ed y screen = Inl SliceBoundsOutOfRange"
proof (induction ed y screen rule: drawRowsLoop.induct)
  case (1 ed y screen)
  from "1.prems" have q: "quo (height ed) 3 = height ed div 3"
    by (simp add: quo_nonneg)
  from "1.prems" have lt: "y < height ed" by linarith
  show ?case
  proof (cases "y = height ed div 3")
    case True
    have "drawRow ed y screen = Inl SliceBoundsOutOfRange"
      using "1.prems" True by (simp add: drawRow_def q)
    then show ?thesis
      using lt by (subst drawRowsLoop.simps) simp
  next
    case False
    with "1.prems" have below: "y + 1 \<le> height ed div 3" by simp
    then have notlast: "y < height ed - 1" using "1.prems"(1) by linarith
    have row: "drawRow ed y screen = Inr (screen @ ''~'' @ clear_line @ [CR, LF])"
      using False notlast by (simp add: drawRow_def q Let_def)
    have len: "int (length (screen @ ''~'' @ clear_line @ [CR, LF])) = 6 * (y + 1)"
      using "1.prems" by (simp add: clear_line_def)
    have "drawRowsLoop ed y screen = drawRowsLoop ed (y + 1) (screen @ ''~'' @ clear_line @ [CR, LF])"
      using lt by (subst drawRowsLoop.simps) (simp add: row)
    also have "\<dots> = Inl SliceBoundsOutOfRange"
      using "1.IH" [OF lt row] "1.prems" below len by simp
    finally show ?thesis .
  qed
qed

section \<open>Properties of rendering\<close>

text \<open>
  C10. When the width is at least the length of the message, \<^verbatim>\<open>refresh\<close> does
  not panic and prints exactly the frame of the specification: hide cursor, home,
  \<open>height\<close> rows (row \<open>height / 3\<close> with the centred message, the others with
  the marker alone, each followed by clear-to-end-of-line, a line break after
  all but the last), the cursor position \<open>(cy + 1, cx + 1)\<close>, show cursor.
\<close>

theorem render_wide:
  assumes "int (length message) \<le> width ed"
  shows "refresh ed = (spec_frame ed, None)"
  using drawRowsLoop_wide [OF assms, of 0 "[]"]
  by (simp add: refresh_def drawRows_def spec_frame_def hide_cursor_def cursor_home_def
      show_cursor_def)

theorem render_wide_witness:
  "int (length message) \<le> 41
   \<and> refresh \<lparr>width = 41, height = 3, cx = 2, cy = 11\<rparr> =
     (ESC # ''[?25l'' @ ESC # ''[H''
      @ ''~'' @ ESC # ''[K'' @ [CR, LF]
      @ ''~  Welcome to this stupid text editor :)'' @ ESC # ''[K'' @ [CR, LF]
      @ ''~'' @ ESC # ''[K''
      @ ESC # ''[12;3H'' @ ESC # ''[?25h'', None)"
  using render_wide [of "\<lparr>width = 41, height = 3, cx = 2, cy = 11\<rparr>"]
  by (simp add: message_def spec_frame_def spec_row_def itoa_def decimal.simps upt_rec numeral_2_eq_2)

text \<open>
  C3. In a viewport of at least one row whose width is at least 1, smaller than
  the length of the message (37) and greater than \<open>6 * (height / 3)\<close>, the
  buffer is shorter than \<open>width\<close> when the message row is reached:
  \<^verbatim>\<open>screen[:ed.width]\<close> panics with a slice-bounds error, \<^verbatim>\<open>drawRows\<close> prints
  nothing, and \<^verbatim>\<open>refresh\<close> stops after the hide-cursor and home sequences.
  Width 10 and height 3 is such a viewport.
\<close>

theorem drawRows_panics:
  assumes "1 \<le> height ed" and "1 \<le> width ed" and "width ed < int (length message)"
    and "6 * (height ed div 3) < width ed"
  shows "drawRows ed = Inl SliceBoundsOutOfRange
       \<and> refresh ed = (ESC # ''[?25l'' @ ESC # ''[H'', Some SliceBoundsOutOfRange)"
proof -
  have "drawRows ed = Inl SliceBoundsOutOfRange"
    using assms drawRowsLoop_narrow [of ed 0 "[]"] by (simp add: drawRows_def)
  then show ?thesis
    by (simp add: refresh_def hide_cursor_def cursor_home_def)
qed

theorem drawRows_panics_witness:
  "(1::int) \<le> 3 \<and> (1::int) \<le> 10 \<and> (10::int) < int (length message)
   \<and> 6 * (3 div 3) < (10::int)
   \<and> drawRows \<lparr>width = 10, height = 3, cx = 0, cy = 0\<rparr> = Inl SliceBoundsOutOfRange
   \<and> refresh \<lparr>width = 10, height = 3, cx = 0, cy = 0\<rparr>
       = (ESC # ''[?25l'' @ ESC # ''[H'', Some SliceBoundsOutOfRange)"
  using drawRows_panics [of "\<lparr>width = 10, height = 3, cx = 0, cy = 0\<rparr>"]
  by (simp add: message_def)

text \<open>
  C2. The message row does not keep the first \<open>width\<close> bytes of the buffer in
  every viewport narrower than the message. On a terminal of 30 columns and 10
  rows the message row is row 3, the three rows before it have put 18 bytes into
  the buffer, and \<^verbatim>\<open>screen[:30]\<close> panics: no frame is drawn.
\<close>

theorem drawRows_narrow_terminal_panics:
  "drawRows \<lparr>width = 30, height = 10, cx = 0, cy = 0\<rparr> = Inl SliceBoundsOutOfRange"
  by (simp add: drawRows_def drawRowsLoop.simps drawRow_def quo_def message_def clear_line_def)

end
